theory Spec2Isabelle
  imports Main "HOL-Library.AList"
begin

section \<open>Python values handled by the question forms\<close>

text \<open>
  The cleaned data of a Django form is a dictionary from field names to Python values.
  The values that \<^verbatim>\<open>BaseQuestionsViewMixin.save\<close> inspects are: \<^verbatim>\<open>None\<close>, booleans,
  numbers, strings, lists and dictionaries (the attendee name parts), an uploaded file
  (known by its name), one question option (the value of a \<^verbatim>\<open>ModelChoiceField\<close>) and a
  collection of question options (the value of a \<^verbatim>\<open>ModelMultipleChoiceField\<close>).
  A question option carries its primary key, its \<^verbatim>\<open>answer\<close> attribute and the text that
  \<^verbatim>\<open>str(o)\<close> gives.
\<close>

record qoption =
  opt_pk :: nat
  opt_answer :: string
  opt_str :: string

datatype pyval =
    PNone
  | PBool bool
  | PInt int
  | PStr string
  | PList "pyval list"
  | PDict "(string \<times> pyval) list"
  | PUploaded string
  | POption qoption
  | POptions "qoption list"

text \<open>Python's truth value of an object, as \<^verbatim>\<open>v if v else None\<close> tests it.\<close>

fun truthy :: "pyval \<Rightarrow> bool" where
  "truthy PNone = False"
| "truthy (PBool b) = b"
| "truthy (PInt i) = (i \<noteq> 0)"
| "truthy (PStr s) = (s \<noteq> [])"
| "truthy (PList xs) = (xs \<noteq> [])"
| "truthy (PDict kvs) = (kvs \<noteq> [])"
| "truthy (PUploaded n) = (n \<noteq> [])"
| "truthy (POption opt) = True"
| "truthy (POptions os) = (os \<noteq> [])"

text \<open>
  What \<^verbatim>\<open>json.dumps\<close> accepts: uploaded files and model instances are not serializable
  and make it raise \<^verbatim>\<open>TypeError\<close>.
\<close>

fun serializable :: "pyval \<Rightarrow> bool" where
  "serializable PNone = True"
| "serializable (PBool b) = True"
| "serializable (PInt i) = True"
| "serializable (PStr s) = True"
| "serializable (PList xs) = list_all serializable xs"
| "serializable (PDict kvs) = list_all serializable (map snd kvs)"
| "serializable (PUploaded n) = False"
| "serializable (POption opt) = False"
| "serializable (POptions os) = False"

datatype error = KeyError | TypeError | AssertionError

definition startswith :: "string \<Rightarrow> string \<Rightarrow> bool" where
  "startswith k p = (take (length p) k = p)"

text \<open>\<^verbatim>\<open>sep.join(xs)\<close>\<close>

fun join :: "string \<Rightarrow> string list \<Rightarrow> string" where
  "join sep [] = []"
| "join sep [x] = x"
| "join sep (x # y # ys) = x @ sep @ join sep (y # ys)"

section \<open>Positions, answers and forms\<close>

text \<open>
  The \<^verbatim>\<open>meta_info\<close> column of a position holds a JSON object. The column and the
  dictionary that \<^verbatim>\<open>meta_info_data\<close> decodes from it are both represented by the object
  itself: its \<^verbatim>\<open>question_form_data\<close> entry, a dictionary when present (this method is
  what writes it), and its other entries.
\<close>

record meta =
  question_form_data :: "(string \<times> pyval) list option"
  other_entries :: "(string \<times> pyval) list"

record position =
  pos_pk :: nat
  is_order_position :: bool
  attendee_name_parts :: pyval
  attendee_email :: pyval
  meta_info :: meta

record question_answer =
  qa_pk :: "nat option"
  qa_cartposition :: "nat option"
  qa_orderposition :: "nat option"
  qa_question :: nat
  qa_answer :: pyval
  qa_file :: "string option"

datatype field_kind = ModelMultipleChoiceField | ModelChoiceField | FileField | OtherField

text \<open>
  \<^verbatim>\<open>isinstance\<close> on the form field classes: in Django a \<^verbatim>\<open>ModelMultipleChoiceField\<close> is
  also a \<^verbatim>\<open>ModelChoiceField\<close>.
\<close>

definition is_ModelMultipleChoiceField :: "field_kind \<Rightarrow> bool" where
  "is_ModelMultipleChoiceField k = (k = ModelMultipleChoiceField)"

definition is_ModelChoiceField :: "field_kind \<Rightarrow> bool" where
  "is_ModelChoiceField k = (k = ModelChoiceField \<or> k = ModelMultipleChoiceField)"

definition is_FileField :: "field_kind \<Rightarrow> bool" where
  "is_FileField k = (k = FileField)"

text \<open>
  A form field of a question: its class, its question, and the cached answer object
  when the field has an \<^verbatim>\<open>answer\<close> attribute.
\<close>

record field =
  kind :: field_kind
  question :: nat
  answer :: "question_answer option"

record form =
  pos :: position
  is_valid :: bool
  cleaned_data :: "(string \<times> pyval) list"
  form_fields :: "(string \<times> field) list"

section \<open>The database and the file storage\<close>

text \<open>
  The answers table by primary key, the many-to-many table of the selected options of
  each answer, the names of the stored files, and the next primary key of the answers
  table.
\<close>

record answer_store =
  rows :: "nat \<rightharpoonup> question_answer"
  options :: "nat \<Rightarrow> nat set"
  storage :: "string set"
  next_pk :: nat

text \<open>
  The positions handled by the view are rows of the database (the forms are built from
  stored positions), so the two position tables are one total function from the class
  and the primary key of a position to its row.
\<close>

record db =
  positions :: "bool \<times> nat \<Rightarrow> position"
  answers :: answer_store

definition pos_key :: "position \<Rightarrow> bool \<times> nat" where
  "pos_key p = (is_order_position p, pos_pk p)"

text \<open>\<^verbatim>\<open>pos.save()\<close> writes every field of the object to its row.\<close>

definition position_save :: "position \<Rightarrow> db \<Rightarrow> db" where
  "position_save p s = s\<lparr>positions := (positions s)(pos_key p := p)\<rparr>"

text \<open>\<^verbatim>\<open>pos.save(update_fields=['meta_info'])\<close> writes that column only.\<close>

definition position_save_meta_info :: "position \<Rightarrow> db \<Rightarrow> db" where
  "position_save_meta_info p s =
     s\<lparr>positions := (positions s)(pos_key p := (positions s (pos_key p))\<lparr>meta_info := meta_info p\<rparr>)\<rparr>"

text \<open>\<^verbatim>\<open>pos.meta_info_data\<close>: the decoded \<^verbatim>\<open>meta_info\<close> of the object.\<close>

definition meta_info_data :: "position \<Rightarrow> meta" where
  "meta_info_data p = meta_info p"

definition serializable_meta :: "meta \<Rightarrow> bool" where
  "serializable_meta m =
     ((case question_form_data m of None \<Rightarrow> True | Some d \<Rightarrow> list_all serializable (map snd d))
      \<and> list_all serializable (map snd (other_entries m)))"

definition json_dumps :: "meta \<Rightarrow> error + meta" where
  "json_dumps m = (if serializable_meta m then Inr m else Inl TypeError)"

text \<open>\<^verbatim>\<open>not answer.pk\<close>: no primary key yet (or the key 0).\<close>

definition not_pk :: "question_answer \<Rightarrow> bool" where
  "not_pk a = (case qa_pk a of None \<Rightarrow> True | Some p \<Rightarrow> p = 0)"

text \<open>
  \<^verbatim>\<open>answer.save()\<close>: a new object gets the next primary key and a row; an object with a
  key overwrites its row. The selected options are another table and stay as they are.
\<close>

definition answer_save :: "question_answer \<Rightarrow> answer_store \<Rightarrow> question_answer \<times> answer_store" where
  "answer_save a A =
     (case qa_pk a of
        None \<Rightarrow>
          (let a' = a\<lparr>qa_pk := Some (next_pk A)\<rparr>
           in (a', A\<lparr>rows := (rows A)(next_pk A \<mapsto> a'), next_pk := Suc (next_pk A)\<rparr>))
      | Some p \<Rightarrow> (a, A\<lparr>rows := (rows A)(p \<mapsto> a)\<rparr>))"

text \<open>\<^verbatim>\<open>answer.options.clear()\<close> and \<^verbatim>\<open>answer.options.add(...)\<close> of an answer with a key.\<close>

definition options_clear :: "question_answer \<Rightarrow> answer_store \<Rightarrow> answer_store" where
  "options_clear a A =
     (case qa_pk a of None \<Rightarrow> A | Some p \<Rightarrow> A\<lparr>options := (options A)(p := {})\<rparr>)"

definition options_add :: "question_answer \<Rightarrow> nat list \<Rightarrow> answer_store \<Rightarrow> answer_store" where
  "options_add a os A =
     (case qa_pk a of None \<Rightarrow> A | Some p \<Rightarrow> A\<lparr>options := (options A)(p := options A p \<union> set os)\<rparr>)"

text \<open>
  \<^verbatim>\<open>answer.file.save(name, content)\<close> stores the file, sets the file field and saves
  the object; \<^verbatim>\<open>answer.file.delete()\<close> removes the file from the storage, clears the
  field and saves the object.
\<close>

definition file_save :: "question_answer \<Rightarrow> string \<Rightarrow> answer_store \<Rightarrow> question_answer \<times> answer_store" where
  "file_save a name A = answer_save (a\<lparr>qa_file := Some name\<rparr>) (A\<lparr>storage := insert name (storage A)\<rparr>)"

definition file_truthy :: "question_answer \<Rightarrow> bool" where
  "file_truthy a = (case qa_file a of None \<Rightarrow> False | Some n \<Rightarrow> n \<noteq> [])"

definition file_delete :: "question_answer \<Rightarrow> answer_store \<Rightarrow> question_answer \<times> answer_store" where
  "file_delete a A =
     (case qa_file a of
        None \<Rightarrow> (a, A)
      | Some n \<Rightarrow> answer_save (a\<lparr>qa_file := None\<rparr>) (A\<lparr>storage := storage A - {n}\<rparr>))"

text \<open>
  \<^verbatim>\<open>answer.delete()\<close> removes the row and its selected options; Django asserts that the
  object has a primary key.
\<close>

definition answer_delete :: "question_answer \<Rightarrow> answer_store \<Rightarrow> error + answer_store" where
  "answer_delete a A =
     (case qa_pk a of
        None \<Rightarrow> Inl AssertionError
      | Some p \<Rightarrow> Inr (A\<lparr>rows := (rows A)(p := None), options := (options A)(p := {})\<rparr>))"

section \<open>BaseQuestionsViewMixin\<close>

text \<open>
  \<^verbatim>\<open>_save_to_answer(field, answer, value)\<close>. The value of a multiple choice field is a
  collection of options and the value of a choice field is one option, as Django's
  fields clean them; any other value there is a \<^verbatim>\<open>TypeError\<close>.
\<close>

definition save_to_answer ::
  "field \<Rightarrow> question_answer \<Rightarrow> pyval \<Rightarrow> answer_store \<Rightarrow> error + (question_answer \<times> answer_store)" where
  "save_to_answer fld a v A =
     (if is_ModelMultipleChoiceField (kind fld) then
        (case v of
           POptions os \<Rightarrow>
             (let answstr = join '', '' (map opt_str os);
                  (a1, A1) = (if not_pk a then answer_save a A else (a, options_clear a A));
                  a2 = a1\<lparr>qa_answer := PStr answstr\<rparr>
              in Inr (a2, options_add a2 (map opt_pk os) A1))
         | _ \<Rightarrow> Inl TypeError)
      else if is_ModelChoiceField (kind fld) then
        (case v of
           POption opt \<Rightarrow>
             (let (a1, A1) = (if not_pk a then answer_save a A else (a, options_clear a A));
                  A2 = options_add a1 [opt_pk opt] A1
              in Inr (a1\<lparr>qa_answer := PStr (opt_answer opt)\<rparr>, A2))
         | _ \<Rightarrow> Inl TypeError)
      else if is_FileField (kind fld) then
        (case v of
           PUploaded name \<Rightarrow>
             (let (a1, A1) = file_save a name A
              in Inr (a1\<lparr>qa_answer := PStr (''file://'' @ name)\<rparr>, A1))
         | _ \<Rightarrow> Inr (a, A))
      else Inr (a\<lparr>qa_answer := v\<rparr>, A))"

text \<open>The new \<^verbatim>\<open>QuestionAnswer\<close> object of a position and a question.\<close>

definition new_answer :: "position \<Rightarrow> nat \<Rightarrow> question_answer" where
  "new_answer p q =
     \<lparr>qa_pk = None,
      qa_cartposition = (if is_order_position p then None else Some (pos_pk p)),
      qa_orderposition = (if is_order_position p then Some (pos_pk p) else None),
      qa_question = q,
      qa_answer = PStr [],
      qa_file = None\<rparr>"

text \<open>
  The branch of the loop over \<^verbatim>\<open>form.cleaned_data\<close> for a key that starts with
  \<^verbatim>\<open>question_\<close> and a value that is not \<^verbatim>\<open>None\<close>.
\<close>

definition question_entry :: "form \<Rightarrow> position \<Rightarrow> string \<Rightarrow> pyval \<Rightarrow> answer_store \<Rightarrow> error + answer_store" where
  "question_entry f p k v A =
     (case map_of (form_fields f) k of
        None \<Rightarrow> Inl KeyError
      | Some fld \<Rightarrow>
          (case answer fld of
             Some cached \<Rightarrow>
               (if v = PStr [] \<or> v = PNone \<or> (is_FileField (kind fld) \<and> v = PBool False) then
                  (let (a1, A1) = (if file_truthy cached then file_delete cached A else (cached, A))
                   in answer_delete a1 A1)
                else
                  (case save_to_answer fld cached v A of
                     Inl e \<Rightarrow> Inl e
                   | Inr (a1, A1) \<Rightarrow> Inr (snd (answer_save a1 A1))))
           | None \<Rightarrow>
               (if v \<noteq> PStr [] then
                  (case save_to_answer fld (new_answer p (question fld)) v A of
                     Inl e \<Rightarrow> Inl e
                   | Inr (a1, A1) \<Rightarrow> Inr (snd (answer_save a1 A1)))
                else Inr A)))"

text \<open>
  The last branch of the loop: \<^verbatim>\<open>meta_info.setdefault('question_form_data', {})\<close>, then
  the key is deleted for \<^verbatim>\<open>None\<close> and set otherwise.
\<close>

definition setdefault_question_form_data :: "meta \<Rightarrow> meta" where
  "setdefault_question_form_data m =
     (case question_form_data m of None \<Rightarrow> m\<lparr>question_form_data := Some []\<rparr> | Some d \<Rightarrow> m)"

definition meta_entry :: "string \<Rightarrow> pyval \<Rightarrow> meta \<Rightarrow> meta" where
  "meta_entry k v m =
     (let m1 = setdefault_question_form_data m;
          d = (case question_form_data m1 of None \<Rightarrow> [] | Some d \<Rightarrow> d)
      in if v = PNone then m1\<lparr>question_form_data := Some (AList.delete k d)\<rparr>
         else m1\<lparr>question_form_data := Some (AList.update k v d)\<rparr>)"

text \<open>
  The loop \<^verbatim>\<open>for k, v in form.cleaned_data.items()\<close>, on the position object of the
  form, the decoded meta information and the database.
\<close>

fun cleaned_data_loop ::
  "form \<Rightarrow> (string \<times> pyval) list \<Rightarrow> position \<times> meta \<times> db \<Rightarrow> error + (position \<times> meta \<times> db)" where
  "cleaned_data_loop f [] st = Inr st"
| "cleaned_data_loop f ((k, v) # kvs) (p, m, s) =
     (if k = ''attendee_name_parts'' then
        (let p' = p\<lparr>attendee_name_parts := (if truthy v then v else PNone)\<rparr>
         in cleaned_data_loop f kvs (p', m, position_save p' s))
      else if k = ''attendee_email'' then
        (let p' = p\<lparr>attendee_email := (if v \<noteq> PStr [] then v else PNone)\<rparr>
         in cleaned_data_loop f kvs (p', m, position_save p' s))
      else if startswith k ''question_'' \<and> v \<noteq> PNone then
        (case question_entry f p k v (answers s) of
           Inl e \<Rightarrow> Inl e
         | Inr A \<Rightarrow> cleaned_data_loop f kvs (p, m, s\<lparr>answers := A\<rparr>))
      else cleaned_data_loop f kvs (p, meta_entry k v m, s))"

text \<open>
  The end of the body of the loop over the forms:
  \<^verbatim>\<open>form.pos.meta_info = json.dumps(meta_info)\<close> and the save of that column.
\<close>

definition persist_meta_info :: "position \<Rightarrow> meta \<Rightarrow> db \<Rightarrow> error + db" where
  "persist_meta_info p m s =
     (case json_dumps m of
        Inl e \<Rightarrow> Inl e
      | Inr j \<Rightarrow> Inr (position_save_meta_info (p\<lparr>meta_info := j\<rparr>) s))"

text \<open>The body of the loop over the forms, for one form.\<close>

definition save_form :: "form \<Rightarrow> db \<Rightarrow> error + db" where
  "save_form f s =
     (let meta_info = meta_info_data (pos f)
      in if \<not> is_valid f then persist_meta_info (pos f) meta_info s
         else
           (case cleaned_data_loop f (cleaned_data f) (pos f, meta_info, s) of
              Inl e \<Rightarrow> Inl e
            | Inr (p, m, s1) \<Rightarrow> persist_meta_info p m s1))"

text \<open>The loop \<^verbatim>\<open>for form in self.forms\<close> with its flag \<^verbatim>\<open>failed\<close>, and \<^verbatim>\<open>save\<close>.\<close>

fun save_loop :: "bool \<Rightarrow> form list \<Rightarrow> db \<Rightarrow> error + (bool \<times> db)" where
  "save_loop failed [] s = Inr (\<not> failed, s)"
| "save_loop failed (f # fs) s =
     (case save_form f s of
        Inl e \<Rightarrow> Inl e
      | Inr s1 \<Rightarrow> save_loop (if \<not> is_valid f then True else failed) fs s1)"

definition save :: "form list \<Rightarrow> db \<Rightarrow> error + (bool \<times> db)" where
  "save forms s = save_loop False forms s"

section \<open>What the loops compute\<close>

text \<open>
  The decoded meta information at the end of the loop over the cleaned data: only the
  entries of the last branch change it.
\<close>

fun cleaned_meta :: "(string \<times> pyval) list \<Rightarrow> meta \<Rightarrow> meta" where
  "cleaned_meta [] m = m"
| "cleaned_meta ((k, v) # kvs) m =
     (if k = ''attendee_name_parts'' \<or> k = ''attendee_email'' \<or> (startswith k ''question_'' \<and> v \<noteq> PNone)
      then cleaned_meta kvs m
      else cleaned_meta kvs (meta_entry k v m))"

text \<open>
  The meta information that \<^verbatim>\<open>save\<close> serializes for a form: that of its position,
  changed by the cleaned data when the form is valid.
\<close>

definition form_meta :: "form \<Rightarrow> meta" where
  "form_meta f =
     (if is_valid f then cleaned_meta (cleaned_data f) (meta_info_data (pos f))
      else meta_info_data (pos f))"

text \<open>The position object at the end of the loop over the cleaned data.\<close>

fun cleaned_position :: "(string \<times> pyval) list \<Rightarrow> position \<Rightarrow> position" where
  "cleaned_position [] p = p"
| "cleaned_position ((k, v) # kvs) p =
     (if k = ''attendee_name_parts'' then
        cleaned_position kvs (p\<lparr>attendee_name_parts := (if truthy v then v else PNone)\<rparr>)
      else if k = ''attendee_email'' then
        cleaned_position kvs (p\<lparr>attendee_email := (if v \<noteq> PStr [] then v else PNone)\<rparr>)
      else cleaned_position kvs p)"

text \<open>
  The row of the position object holds the attendee name parts and the attendee email of
  the object; a dictionary of cleaned data has one of the two keys.
\<close>

definition row_agrees :: "position \<times> meta \<times> db \<Rightarrow> bool" where
  "row_agrees st =
     (attendee_email (positions (snd (snd st)) (pos_key (fst st))) = attendee_email (fst st) \<and>
      attendee_name_parts (positions (snd (snd st)) (pos_key (fst st))) = attendee_name_parts (fst st))"

definition has_attendee_key :: "(string \<times> pyval) list \<Rightarrow> bool" where
  "has_attendee_key kvs = (\<exists>kv \<in> set kvs. fst kv = ''attendee_name_parts'' \<or> fst kv = ''attendee_email'')"

section \<open>Forms on which save raises nothing\<close>

text \<open>
  A value fits its field when a multiple choice field has a collection of options and a
  choice field has one option. An entry of the cleaned data is in order when its
  question key names a field of the form, the cached answer of that field has a primary
  key, and its value fits the field; an entry of the last branch has a value that
  \<^verbatim>\<open>json.dumps\<close> accepts. A form is in order when the meta information of its position
  is serializable and, if it is valid, its entries are in order.
\<close>

definition value_fits :: "field_kind \<Rightarrow> pyval \<Rightarrow> bool" where
  "value_fits k v =
     (if is_ModelMultipleChoiceField k then (case v of POptions os \<Rightarrow> True | _ \<Rightarrow> False)
      else if is_ModelChoiceField k then (case v of POption opt \<Rightarrow> True | _ \<Rightarrow> False)
      else True)"

definition entry_ok :: "form \<Rightarrow> string \<times> pyval \<Rightarrow> bool" where
  "entry_ok f kv =
     (case kv of (k, v) \<Rightarrow>
        if k = ''attendee_name_parts'' \<or> k = ''attendee_email'' then True
        else if startswith k ''question_'' \<and> v \<noteq> PNone then
          (case map_of (form_fields f) k of
             None \<Rightarrow> False
           | Some fld \<Rightarrow>
               (case answer fld of
                  Some cached \<Rightarrow>
                    qa_pk cached \<noteq> None \<and>
                    (v = PStr [] \<or> (is_FileField (kind fld) \<and> v = PBool False) \<or> value_fits (kind fld) v)
                | None \<Rightarrow> v = PStr [] \<or> value_fits (kind fld) v))
        else serializable v)"

definition form_ok :: "form \<Rightarrow> bool" where
  "form_ok f =
     (serializable_meta (meta_info_data (pos f)) \<and>
      (if is_valid f then list_all (entry_ok f) (cleaned_data f) else True))"

definition forms_ok :: "form list \<Rightarrow> bool" where
  "forms_ok fs = list_all form_ok fs"

section \<open>The eligibility gate\<close>

text \<open>
  Modelled from the spec: \<^verbatim>\<open>shred_constraints\<close> of \<^verbatim>\<open>pretix.base.shredder\<close>, which is
  not among the source files; only its tests in \<^verbatim>\<open>tests/base/test_shredders.py\<close> are.
  Timestamps are seconds. The spec (4.4, 8) blocks an event that is live, and an event
  whose relevant end timestamps are not all more than 60 days in the past. The relevant
  end timestamps are those of the sub-periods for an event with sub-periods
  (\<^verbatim>\<open>test_shred_constraint_60_days_subevents\<close> expects no block for an event that starts
  now and whose only sub-period ended 62 days ago) and the end of the event otherwise;
  an end that is not set is the start (\<^verbatim>\<open>test_shred_constraint_offline\<close> sets no
  \<^verbatim>\<open>date_to\<close>). An event that is not live and ended 52 days ago is blocked
  (\<^verbatim>\<open>test_shred_constraint_60_days\<close>), so the window is checked whatever the live flag is.
\<close>

record subevent =
  se_date_from :: int
  se_date_to :: "int option"

record event =
  live :: bool
  has_subevents :: bool
  date_from :: int
  date_to :: "int option"
  subevents :: "subevent list"

definition days :: "int \<Rightarrow> int" where
  "days n = n * 86400"

definition event_end :: "event \<Rightarrow> int" where
  "event_end e = (case date_to e of Some t \<Rightarrow> t | None \<Rightarrow> date_from e)"

definition subevent_end :: "subevent \<Rightarrow> int" where
  "subevent_end se = (case se_date_to se of Some t \<Rightarrow> t | None \<Rightarrow> se_date_from se)"

definition relevant_ends :: "event \<Rightarrow> int list" where
  "relevant_ends e = (if has_subevents e then map subevent_end (subevents e) else [event_end e])"

definition over_for_60_days :: "int \<Rightarrow> int \<Rightarrow> bool" where
  "over_for_60_days now t = (t < now - days 60)"

datatype blocking_reason = NotOverFor60Days | ShopIsLive

text \<open>
  Modelled from the spec: \<^verbatim>\<open>shred_constraints(event)\<close>, at the time \<open>now\<close>. It returns a
  reason when an end timestamp is inside the window, a reason when the event is live, and
  \<^verbatim>\<open>None\<close> otherwise. The spec does not give the texts of the reasons; they are two
  constants here.
\<close>

definition shred_constraints :: "int \<Rightarrow> event \<Rightarrow> blocking_reason option" where
  "shred_constraints now e =
     (if \<not> list_all (over_for_60_days now) (relevant_ends e) then Some NotOverFor60Days
      else if live e then Some ShopIsLive
      else None)"

section \<open>Example inputs\<close>

definition example_position :: "nat \<Rightarrow> position" where
  "example_position n =
     \<lparr>pos_pk = n, is_order_position = True,
      attendee_name_parts = PDict [(''full_name'', PStr ''Peter'')],
      attendee_email = PStr ''foo@example.org'',
      meta_info = \<lparr>question_form_data = None, other_entries = []\<rparr>\<rparr>"

definition example_forms :: "form list" where
  "example_forms =
     [\<lparr>pos = example_position 1, is_valid = True,
       cleaned_data = [(''attendee_name_parts'', PDict []), (''attendee_email'', PStr []),
                       (''question_1'', PStr ''S''), (''newsletter'', PBool True)],
       form_fields = [(''question_1'', \<lparr>kind = OtherField, question = 1, answer = None\<rparr>)]\<rparr>,
      \<lparr>pos = example_position 2, is_valid = False, cleaned_data = [], form_fields = []\<rparr>]"

definition example_db :: db where
  "example_db =
     \<lparr>positions = (\<lambda>k. example_position (snd k)),
      answers = \<lparr>rows = Map.empty, options = (\<lambda>_. {}), storage = {}, next_pk = 1\<rparr>\<rparr>"

definition example_event :: event where
  "example_event =
     \<lparr>live = False, has_subevents = True, date_from = days 1000, date_to = None,
      subevents = [\<lparr>se_date_from = days 938, se_date_to = Some (days 938)\<rparr>,
                   \<lparr>se_date_from = days 938, se_date_to = Some (days 948)\<rparr>]\<rparr>"

text \<open>
  The event of \<^verbatim>\<open>test_shred_constraint_60_days\<close> that is not live and ended 52 days
  before the day 1000.
\<close>

definition event_52_days :: event where
  "event_52_days =
     \<lparr>live = False, has_subevents = False, date_from = days 948, date_to = Some (days 948),
      subevents = []\<rparr>"

section \<open>The flag and the frame of the loop over the forms\<close>

lemma save_loop_flag:
  "save_loop failed fs s = Inr (ok, s') \<Longrightarrow> ok = (\<not> failed \<and> list_all is_valid fs)"
proof (induction fs arbitrary: failed s)
  case Nil
  then show ?case by simp
next
  case (Cons f fs)
  then show ?case by (auto split: sum.splits if_splits)
qed

lemma persist_meta_info_positions:
  "persist_meta_info p m s = Inr s' \<Longrightarrow>
     positions s' = (positions s)(pos_key p := (positions s (pos_key p))\<lparr>meta_info := m\<rparr>)"
  by (auto simp: persist_meta_info_def position_save_meta_info_def json_dumps_def pos_key_def
      split: sum.splits if_splits)

lemma cleaned_data_loop_answers:
  "cleaned_data_loop f kvs (p, m, s) = Inr (p', m', s') \<Longrightarrow> answers t = answers s \<Longrightarrow>
     \<exists>t'. cleaned_data_loop f kvs (p, m, t) = Inr (p', m', t') \<and> answers t' = answers s'"
proof (induction kvs arbitrary: p m s t)
  case Nil
  then show ?case by simp
next
  case (Cons kv kvs)
  obtain k v where kv: "kv = (k, v)" by (cases kv)
  consider (name) "k = ''attendee_name_parts''"
    | (email) "k \<noteq> ''attendee_name_parts''" "k = ''attendee_email''"
    | (quest) "k \<noteq> ''attendee_name_parts''" "k \<noteq> ''attendee_email''"
        "startswith k ''question_'' \<and> v \<noteq> PNone"
    | (other) "k \<noteq> ''attendee_name_parts''" "k \<noteq> ''attendee_email''"
        "\<not> (startswith k ''question_'' \<and> v \<noteq> PNone)"
    by blast
  then show ?case
  proof cases
    case name
    define p1 where "p1 = p\<lparr>attendee_name_parts := (if truthy v then v else PNone)\<rparr>"
    from Cons.prems(1) name have "cleaned_data_loop f kvs (p1, m, position_save p1 s) = Inr (p', m', s')"
      by (simp add: kv p1_def Let_def)
    moreover have "answers (position_save p1 t) = answers (position_save p1 s)"
      using Cons.prems(2) by (simp add: position_save_def)
    ultimately obtain t' where "cleaned_data_loop f kvs (p1, m, position_save p1 t) = Inr (p', m', t')"
      "answers t' = answers s'" using Cons.IH by blast
    then show ?thesis using name by (simp add: kv p1_def Let_def)
  next
    case email
    define p1 where "p1 = p\<lparr>attendee_email := (if v \<noteq> PStr [] then v else PNone)\<rparr>"
    from Cons.prems(1) email have "cleaned_data_loop f kvs (p1, m, position_save p1 s) = Inr (p', m', s')"
      by (simp add: kv p1_def Let_def)
    moreover have "answers (position_save p1 t) = answers (position_save p1 s)"
      using Cons.prems(2) by (simp add: position_save_def)
    ultimately obtain t' where "cleaned_data_loop f kvs (p1, m, position_save p1 t) = Inr (p', m', t')"
      "answers t' = answers s'" using Cons.IH by blast
    then show ?thesis using email by (simp add: kv p1_def Let_def)
  next
    case quest
    from Cons.prems(1) quest obtain A where A: "question_entry f p k v (answers s) = Inr A"
      and rest: "cleaned_data_loop f kvs (p, m, s\<lparr>answers := A\<rparr>) = Inr (p', m', s')"
      by (auto simp: kv split: sum.splits)
    have "answers (t\<lparr>answers := A\<rparr>) = answers (s\<lparr>answers := A\<rparr>)" by simp
    with rest obtain t' where "cleaned_data_loop f kvs (p, m, t\<lparr>answers := A\<rparr>) = Inr (p', m', t')"
      "answers t' = answers s'" using Cons.IH by blast
    then show ?thesis using quest A Cons.prems(2) by (simp add: kv)
  next
    case other
    from Cons.prems(1) other have "cleaned_data_loop f kvs (p, meta_entry k v m, s) = Inr (p', m', s')"
      by (auto simp: kv)
    with Cons.prems(2) obtain t' where "cleaned_data_loop f kvs (p, meta_entry k v m, t) = Inr (p', m', t')"
      "answers t' = answers s'" using Cons.IH by blast
    then show ?thesis using other by (auto simp: kv)
  qed
qed

lemma cleaned_data_loop_meta:
  "cleaned_data_loop f kvs st = Inr st' \<Longrightarrow>
     fst (snd st') = cleaned_meta kvs (fst (snd st)) \<and> pos_key (fst st') = pos_key (fst st)"
proof (induction f kvs st rule: cleaned_data_loop.induct)
  case (1 f st)
  then show ?case by simp
next
  case (2 f k v kvs p m s)
  then show ?case
    by (auto simp: Let_def pos_key_def split: if_splits sum.splits)
qed

lemma cleaned_data_loop_other_rows:
  "cleaned_data_loop f kvs st = Inr st' \<Longrightarrow> key \<noteq> pos_key (fst st) \<Longrightarrow>
     positions (snd (snd st')) key = positions (snd (snd st)) key"
proof (induction f kvs st rule: cleaned_data_loop.induct)
  case (1 f st)
  then show ?case by simp
next
  case (2 f k v kvs p m s)
  then show ?case
    by (auto simp: Let_def pos_key_def position_save_def split: if_splits sum.splits)
qed

lemma save_form_answers_cong:
  assumes "save_form f s = Inr s'" and "answers t = answers s"
  shows "\<exists>t'. save_form f t = Inr t' \<and> answers t' = answers s'"
proof (cases "is_valid f")
  case False
  with assms show ?thesis
    by (auto simp: save_form_def Let_def persist_meta_info_def position_save_meta_info_def
        split: sum.splits)
next
  case True
  with assms(1) obtain p m s1 where
    loop: "cleaned_data_loop f (cleaned_data f) (pos f, meta_info_data (pos f), s) = Inr (p, m, s1)"
    and per: "persist_meta_info p m s1 = Inr s'"
    by (auto simp: save_form_def Let_def split: sum.splits)
  from cleaned_data_loop_answers[OF loop assms(2)] obtain t1 where
    t1: "cleaned_data_loop f (cleaned_data f) (pos f, meta_info_data (pos f), t) = Inr (p, m, t1)"
    and a1: "answers t1 = answers s1" by blast
  from per a1 have "\<exists>t'. persist_meta_info p m t1 = Inr t' \<and> answers t' = answers s'"
    by (auto simp: persist_meta_info_def position_save_meta_info_def split: sum.splits)
  with t1 True show ?thesis by (auto simp: save_form_def Let_def)
qed

lemma save_form_invalid_answers:
  "\<not> is_valid f \<Longrightarrow> save_form f s = Inr s' \<Longrightarrow> answers s' = answers s"
  by (auto simp: save_form_def Let_def persist_meta_info_def position_save_meta_info_def
      split: sum.splits)

lemma save_loop_filter_answers:
  "save_loop failed fs s = Inr (ok, s') \<Longrightarrow> answers t = answers s \<Longrightarrow>
     \<exists>ok2 t'. save_loop failed2 (filter is_valid fs) t = Inr (ok2, t') \<and> answers t' = answers s'"
proof (induction fs arbitrary: failed failed2 s t)
  case Nil
  then show ?case by simp
next
  case (Cons f fs)
  from Cons.prems(1) obtain s1 where
    step: "save_form f s = Inr s1"
    and rest: "save_loop (if \<not> is_valid f then True else failed) fs s1 = Inr (ok, s')"
    by (auto split: sum.splits)
  show ?case
  proof (cases "is_valid f")
    case True
    from save_form_answers_cong[OF step Cons.prems(2)] obtain t1 where
      t1: "save_form f t = Inr t1" and a1: "answers t1 = answers s1" by blast
    from Cons.IH[OF rest a1] obtain ok2 t' where
      "save_loop failed2 (filter is_valid fs) t1 = Inr (ok2, t')" "answers t' = answers s'"
      by blast
    with True t1 show ?thesis by simp
  next
    case False
    from save_form_invalid_answers[OF False step] have "answers s1 = answers s" .
    with Cons.prems(2) have "answers t = answers s1" by simp
    from Cons.IH[OF rest this] False show ?thesis by simp
  qed
qed

lemma save_form_meta_row:
  "save_form f s = Inr s' \<Longrightarrow> meta_info (positions s' (pos_key (pos f))) = form_meta f"
proof (cases "is_valid f")
  case False
  assume "save_form f s = Inr s'"
  with False show ?thesis
    by (auto simp: save_form_def form_meta_def Let_def dest!: persist_meta_info_positions)
next
  case True
  assume a: "save_form f s = Inr s'"
  with True obtain p m s1 where
    loop: "cleaned_data_loop f (cleaned_data f) (pos f, meta_info_data (pos f), s) = Inr (p, m, s1)"
    and per: "persist_meta_info p m s1 = Inr s'"
    by (auto simp: save_form_def Let_def split: sum.splits)
  from cleaned_data_loop_meta[OF loop] have "m = cleaned_meta (cleaned_data f) (meta_info_data (pos f))"
    "pos_key p = pos_key (pos f)" by simp_all
  with persist_meta_info_positions[OF per] True show ?thesis
    by (simp add: form_meta_def)
qed

lemma save_form_other_rows:
  assumes "save_form f s = Inr s'" and "key \<noteq> pos_key (pos f)"
  shows "positions s' key = positions s key"
proof (cases "is_valid f")
  case False
  with assms show ?thesis
    by (auto simp: save_form_def Let_def dest!: persist_meta_info_positions)
next
  case True
  with assms(1) obtain p m s1 where
    loop: "cleaned_data_loop f (cleaned_data f) (pos f, meta_info_data (pos f), s) = Inr (p, m, s1)"
    and per: "persist_meta_info p m s1 = Inr s'"
    by (auto simp: save_form_def Let_def split: sum.splits)
  from cleaned_data_loop_meta[OF loop] have k: "pos_key p = pos_key (pos f)" by simp
  from cleaned_data_loop_other_rows[OF loop, of key] assms(2)
  have "positions s1 key = positions s key" by simp
  with persist_meta_info_positions[OF per] k assms(2) show ?thesis by simp
qed

lemma save_loop_other_rows:
  "save_loop failed fs s = Inr (ok, s') \<Longrightarrow> key \<notin> set (map (pos_key \<circ> pos) fs) \<Longrightarrow>
     positions s' key = positions s key"
proof (induction fs arbitrary: failed s)
  case Nil
  then show ?case by simp
next
  case (Cons f fs)
  from Cons.prems(1) obtain s1 where
    step: "save_form f s = Inr s1"
    and rest: "save_loop (if \<not> is_valid f then True else failed) fs s1 = Inr (ok, s')"
    by (auto split: sum.splits)
  from Cons.prems(2) have "key \<noteq> pos_key (pos f)" "key \<notin> set (map (pos_key \<circ> pos) fs)" by auto
  with save_form_other_rows[OF step] Cons.IH[OF rest] show ?case by simp
qed

lemma save_loop_meta_rows:
  "save_loop failed fs s = Inr (ok, s') \<Longrightarrow> distinct (map (pos_key \<circ> pos) fs) \<Longrightarrow> f \<in> set fs \<Longrightarrow>
     meta_info (positions s' (pos_key (pos f))) = form_meta f"
proof (induction fs arbitrary: failed s)
  case Nil
  then show ?case by simp
next
  case (Cons g fs)
  from Cons.prems(1) obtain s1 where
    step: "save_form g s = Inr s1"
    and rest: "save_loop (if \<not> is_valid g then True else failed) fs s1 = Inr (ok, s')"
    by (auto split: sum.splits)
  show ?case
  proof (cases "f \<in> set fs")
    case True
    with Cons.IH[OF rest] Cons.prems(2) show ?thesis by simp
  next
    case False
    with Cons.prems(3) have fg: "f = g" by simp
    from Cons.prems(2) have "pos_key (pos g) \<notin> set (map (pos_key \<circ> pos) fs)" by simp
    from save_loop_other_rows[OF rest this] save_form_meta_row[OF step] fg show ?thesis by simp
  qed
qed

section \<open>save returns on forms that are in order\<close>

lemma serializable_update:
  "list_all serializable (map snd d) \<Longrightarrow> serializable v \<Longrightarrow>
     list_all serializable (map snd (AList.update k v d))"
  by (induction d) auto

lemma serializable_delete:
  "list_all serializable (map snd d) \<Longrightarrow> list_all serializable (map snd (AList.delete k d))"
  by (induction d) auto

lemma meta_entry_serializable:
  "serializable_meta m \<Longrightarrow> serializable v \<Longrightarrow> serializable_meta (meta_entry k v m)"
  by (auto simp: serializable_meta_def meta_entry_def setdefault_question_form_data_def Let_def
      serializable_update serializable_delete split: option.splits)

lemma save_to_answer_returns:
  "value_fits (kind fld) v \<Longrightarrow> \<exists>r. save_to_answer fld a v A = Inr r"
  by (auto simp: save_to_answer_def value_fits_def Let_def split: pyval.splits prod.splits if_splits)

lemma question_entry_returns:
  assumes "entry_ok f (k, v)" and "k \<noteq> ''attendee_name_parts''" and "k \<noteq> ''attendee_email''"
    and "startswith k ''question_'' \<and> v \<noteq> PNone"
  shows "\<exists>A'. question_entry f p k v A = Inr A'"
proof -
  from assms obtain fld where fld: "map_of (form_fields f) k = Some fld"
    by (auto simp: entry_ok_def split: option.splits)
  show ?thesis
  proof (cases "answer fld")
    case None
    with assms fld have "v = PStr [] \<or> value_fits (kind fld) v"
      by (auto simp: entry_ok_def)
    then show ?thesis
    proof
      assume "v = PStr []"
      with fld None show ?thesis by (simp add: question_entry_def)
    next
      assume "value_fits (kind fld) v"
      from save_to_answer_returns[OF this] obtain r where
        "save_to_answer fld (new_answer p (question fld)) v A = Inr r" by blast
      with fld None show ?thesis by (cases r) (auto simp: question_entry_def)
    qed
  next
    case (Some cached)
    with assms fld have pk: "qa_pk cached \<noteq> None"
      and c: "v = PStr [] \<or> (is_FileField (kind fld) \<and> v = PBool False) \<or> value_fits (kind fld) v"
      by (auto simp: entry_ok_def)
    show ?thesis
    proof (cases "v = PStr [] \<or> v = PNone \<or> (is_FileField (kind fld) \<and> v = PBool False)")
      case True
      have "\<exists>A'. answer_delete cached A = Inr A'"
        using pk by (auto simp: answer_delete_def)
      moreover have "\<exists>A'. answer_delete (fst (file_delete cached A)) (snd (file_delete cached A)) = Inr A'"
        using pk by (auto simp: answer_delete_def file_delete_def answer_save_def Let_def split: option.splits)
      ultimately show ?thesis using fld Some True
        by (auto simp: question_entry_def split: prod.splits)
    next
      case False
      with c have "value_fits (kind fld) v" by blast
      from save_to_answer_returns[OF this] obtain r where
        "save_to_answer fld cached v A = Inr r" by blast
      with fld Some False show ?thesis by (cases r) (auto simp: question_entry_def)
    qed
  qed
qed

lemma cleaned_data_loop_returns:
  "list_all (entry_ok f) kvs \<Longrightarrow> serializable_meta (fst (snd st)) \<Longrightarrow>
     \<exists>st'. cleaned_data_loop f kvs st = Inr st' \<and> serializable_meta (fst (snd st'))"
proof (induction f kvs st rule: cleaned_data_loop.induct)
  case (1 f st)
  then show ?case by simp
next
  case (2 f k v kvs p m s)
  consider (name) "k = ''attendee_name_parts''"
    | (email) "k \<noteq> ''attendee_name_parts''" "k = ''attendee_email''"
    | (quest) "k \<noteq> ''attendee_name_parts''" "k \<noteq> ''attendee_email''"
        "startswith k ''question_'' \<and> v \<noteq> PNone"
    | (other) "k \<noteq> ''attendee_name_parts''" "k \<noteq> ''attendee_email''"
        "\<not> (startswith k ''question_'' \<and> v \<noteq> PNone)"
    by blast
  then show ?case
  proof cases
    case name
    with 2 show ?thesis by (simp add: Let_def)
  next
    case email
    with 2 show ?thesis by (simp add: Let_def)
  next
    case quest
    from "2.prems"(1) have "entry_ok f (k, v)" by simp
    from question_entry_returns[OF this quest, of p "answers s"] obtain A' where
      A': "question_entry f p k v (answers s) = Inr A'" by blast
    from "2.IH"(3)[OF quest(1) quest(2) quest(3) A'] "2.prems"
    obtain st' where "cleaned_data_loop f kvs (p, m, s\<lparr>answers := A'\<rparr>) = Inr st'"
      "serializable_meta (fst (snd st'))" by auto
    with quest A' show ?thesis by simp
  next
    case other
    from "2.prems"(1) other have "serializable v" by (auto simp: entry_ok_def)
    with "2.prems"(2) have "serializable_meta (meta_entry k v m)"
      by (simp add: meta_entry_serializable)
    with "2.IH"(4)[OF other] "2.prems"(1)
    obtain st' where "cleaned_data_loop f kvs (p, meta_entry k v m, s) = Inr st'"
      "serializable_meta (fst (snd st'))" by auto
    with other show ?thesis by (cases st') auto
  qed
qed

lemma save_form_returns:
  assumes "form_ok f"
  shows "\<exists>s'. save_form f s = Inr s'"
proof (cases "is_valid f")
  case False
  with assms show ?thesis
    by (simp add: save_form_def form_ok_def persist_meta_info_def json_dumps_def Let_def)
next
  case True
  with assms have "list_all (entry_ok f) (cleaned_data f)"
    "serializable_meta (fst (snd (pos f, meta_info_data (pos f), s)))"
    by (simp_all add: form_ok_def)
  from cleaned_data_loop_returns[OF this] obtain st' where
    st': "cleaned_data_loop f (cleaned_data f) (pos f, meta_info_data (pos f), s) = Inr st'"
    "serializable_meta (fst (snd st'))" by blast
  obtain p m s1 where "st' = (p, m, s1)" by (cases st') auto
  with st' True show ?thesis
    by (simp add: save_form_def persist_meta_info_def json_dumps_def Let_def)
qed

lemma save_loop_returns:
  "list_all form_ok fs \<Longrightarrow> \<exists>r. save_loop failed fs s = Inr r"
proof (induction fs arbitrary: failed s)
  case Nil
  then show ?case by simp
next
  case (Cons f fs)
  then have "form_ok f" by simp
  from save_form_returns[OF this, of s] obtain s1 where "save_form f s = Inr s1" by blast
  with Cons show ?case by simp
qed

section \<open>The attendee fields of the rows\<close>

lemma cleaned_data_loop_position:
  "cleaned_data_loop f kvs st = Inr st' \<Longrightarrow> fst st' = cleaned_position kvs (fst st)"
proof (induction f kvs st rule: cleaned_data_loop.induct)
  case (1 f st)
  then show ?case by simp
next
  case (2 f k v kvs p m s)
  then show ?case
    by (auto simp: Let_def split: if_splits sum.splits)
qed

lemma cleaned_data_loop_row_agrees:
  "cleaned_data_loop f kvs st = Inr st' \<Longrightarrow> row_agrees st \<or> has_attendee_key kvs \<Longrightarrow> row_agrees st'"
proof (induction f kvs st rule: cleaned_data_loop.induct)
  case (1 f st)
  then show ?case by (simp add: has_attendee_key_def)
next
  case (2 f k v kvs p m s)
  consider (name) "k = ''attendee_name_parts''"
    | (email) "k \<noteq> ''attendee_name_parts''" "k = ''attendee_email''"
    | (quest) "k \<noteq> ''attendee_name_parts''" "k \<noteq> ''attendee_email''"
        "startswith k ''question_'' \<and> v \<noteq> PNone"
    | (other) "k \<noteq> ''attendee_name_parts''" "k \<noteq> ''attendee_email''"
        "\<not> (startswith k ''question_'' \<and> v \<noteq> PNone)"
    by blast
  then show ?case
  proof cases
    case name
    define p1 where "p1 = p\<lparr>attendee_name_parts := (if truthy v then v else PNone)\<rparr>"
    have "row_agrees (p1, m, position_save p1 s)"
      by (simp add: row_agrees_def position_save_def)
    moreover from "2.prems"(1) name have "cleaned_data_loop f kvs (p1, m, position_save p1 s) = Inr st'"
      by (simp add: p1_def Let_def)
    ultimately show ?thesis using "2.IH"(1)[OF name refl] by (simp add: p1_def)
  next
    case email
    define p1 where "p1 = p\<lparr>attendee_email := (if v \<noteq> PStr [] then v else PNone)\<rparr>"
    have "row_agrees (p1, m, position_save p1 s)"
      by (simp add: row_agrees_def position_save_def)
    moreover from "2.prems"(1) email have "cleaned_data_loop f kvs (p1, m, position_save p1 s) = Inr st'"
      by (simp add: p1_def Let_def)
    ultimately show ?thesis using "2.IH"(2)[OF email refl] by (simp add: p1_def)
  next
    case quest
    from "2.prems"(1) quest obtain A where A: "question_entry f p k v (answers s) = Inr A"
      and rest: "cleaned_data_loop f kvs (p, m, s\<lparr>answers := A\<rparr>) = Inr st'"
      by (auto split: sum.splits)
    from "2.prems"(2) quest have "row_agrees (p, m, s\<lparr>answers := A\<rparr>) \<or> has_attendee_key kvs"
      by (auto simp: row_agrees_def has_attendee_key_def)
    with "2.IH"(3)[OF quest A rest] show ?thesis .
  next
    case other
    from "2.prems"(1) other have rest: "cleaned_data_loop f kvs (p, meta_entry k v m, s) = Inr st'"
      by auto
    from "2.prems"(2) other have "row_agrees (p, meta_entry k v m, s) \<or> has_attendee_key kvs"
      by (auto simp: row_agrees_def has_attendee_key_def)
    with "2.IH"(4)[OF other rest] show ?thesis .
  qed
qed

lemma cleaned_position_email_keep:
  "''attendee_email'' \<notin> fst ` set kvs \<Longrightarrow>
     attendee_email (cleaned_position kvs p) = attendee_email p"
  by (induction kvs p rule: cleaned_position.induct) auto

lemma cleaned_position_name_keep:
  "''attendee_name_parts'' \<notin> fst ` set kvs \<Longrightarrow>
     attendee_name_parts (cleaned_position kvs p) = attendee_name_parts p"
  by (induction kvs p rule: cleaned_position.induct) auto

lemma cleaned_position_email:
  "distinct (map fst kvs) \<Longrightarrow> (''attendee_email'', v) \<in> set kvs \<Longrightarrow>
     attendee_email (cleaned_position kvs p) = (if v \<noteq> PStr [] then v else PNone)"
proof (induction kvs p rule: cleaned_position.induct)
  case (1 p)
  then show ?case by simp
next
  case (2 k w kvs p)
  show ?case
  proof (cases "k = ''attendee_email''")
    case True
    with "2.prems" have "w = v" "''attendee_email'' \<notin> fst ` set kvs"
      by (auto simp: image_iff)
    with True show ?thesis by (simp add: cleaned_position_email_keep)
  next
    case False
    with 2 show ?thesis by auto
  qed
qed

lemma cleaned_position_name:
  "distinct (map fst kvs) \<Longrightarrow> (''attendee_name_parts'', v) \<in> set kvs \<Longrightarrow>
     attendee_name_parts (cleaned_position kvs p) = (if truthy v then v else PNone)"
proof (induction kvs p rule: cleaned_position.induct)
  case (1 p)
  then show ?case by simp
next
  case (2 k w kvs p)
  show ?case
  proof (cases "k = ''attendee_name_parts''")
    case True
    with "2.prems" have "w = v" "''attendee_name_parts'' \<notin> fst ` set kvs"
      by (auto simp: image_iff)
    with True show ?thesis by (simp add: cleaned_position_name_keep)
  next
    case False
    with 2 show ?thesis by auto
  qed
qed

lemma save_form_attendee_row:
  assumes "save_form f s = Inr s'" and "is_valid f" and "has_attendee_key (cleaned_data f)"
  shows "attendee_email (positions s' (pos_key (pos f))) =
           attendee_email (cleaned_position (cleaned_data f) (pos f)) \<and>
         attendee_name_parts (positions s' (pos_key (pos f))) =
           attendee_name_parts (cleaned_position (cleaned_data f) (pos f))"
proof -
  from assms(1,2) obtain p m s1 where
    loop: "cleaned_data_loop f (cleaned_data f) (pos f, meta_info_data (pos f), s) = Inr (p, m, s1)"
    and per: "persist_meta_info p m s1 = Inr s'"
    by (auto simp: save_form_def Let_def split: sum.splits)
  from cleaned_data_loop_row_agrees[OF loop] assms(3) have "row_agrees (p, m, s1)" by simp
  moreover from cleaned_data_loop_position[OF loop] have "p = cleaned_position (cleaned_data f) (pos f)"
    by simp
  moreover from cleaned_data_loop_meta[OF loop] have "pos_key p = pos_key (pos f)" by simp
  ultimately show ?thesis
    using persist_meta_info_positions[OF per] by (simp add: row_agrees_def)
qed

lemma save_loop_attendee_rows:
  "save_loop failed fs s = Inr (ok, s') \<Longrightarrow> distinct (map (pos_key \<circ> pos) fs) \<Longrightarrow> f \<in> set fs \<Longrightarrow>
   is_valid f \<Longrightarrow> has_attendee_key (cleaned_data f) \<Longrightarrow>
     attendee_email (positions s' (pos_key (pos f))) =
       attendee_email (cleaned_position (cleaned_data f) (pos f)) \<and>
     attendee_name_parts (positions s' (pos_key (pos f))) =
       attendee_name_parts (cleaned_position (cleaned_data f) (pos f))"
proof (induction fs arbitrary: failed s)
  case Nil
  then show ?case by simp
next
  case (Cons g fs)
  from Cons.prems(1) obtain s1 where
    step: "save_form g s = Inr s1"
    and rest: "save_loop (if \<not> is_valid g then True else failed) fs s1 = Inr (ok, s')"
    by (auto split: sum.splits)
  show ?case
  proof (cases "f \<in> set fs")
    case True
    with Cons.IH[OF rest] Cons.prems show ?thesis by simp
  next
    case False
    with Cons.prems(3) have fg: "f = g" by simp
    from Cons.prems(2) have "pos_key (pos g) \<notin> set (map (pos_key \<circ> pos) fs)" by simp
    from save_loop_other_rows[OF rest this] save_form_attendee_row[OF step] Cons.prems(4,5) fg
    show ?thesis by simp
  qed
qed

lemma save_attendee_fields:
  assumes "save fs s = Inr (ok, s')" and d: "distinct (map (pos_key \<circ> pos) fs)" and f: "f \<in> set fs"
    and v: "is_valid f" and dk: "distinct (map fst (cleaned_data f))"
  shows "(''attendee_email'', w) \<in> set (cleaned_data f) \<Longrightarrow>
           attendee_email (positions s' (pos_key (pos f))) = (if w \<noteq> PStr [] then w else PNone)"
    and "(''attendee_name_parts'', w) \<in> set (cleaned_data f) \<Longrightarrow>
           attendee_name_parts (positions s' (pos_key (pos f))) = (if truthy w then w else PNone)"
proof -
  from assms(1) have r: "save_loop False fs s = Inr (ok, s')" by (simp add: save_def)
  note rows = save_loop_attendee_rows[OF r d f v]
  {
    assume e: "(''attendee_email'', w) \<in> set (cleaned_data f)"
    then have "has_attendee_key (cleaned_data f)" by (force simp: has_attendee_key_def)
    with rows cleaned_position_email[OF dk e, of "pos f"]
    show "attendee_email (positions s' (pos_key (pos f))) = (if w \<noteq> PStr [] then w else PNone)"
      by simp
  next
    assume e: "(''attendee_name_parts'', w) \<in> set (cleaned_data f)"
    then have "has_attendee_key (cleaned_data f)" by (force simp: has_attendee_key_def)
    with rows cleaned_position_name[OF dk e, of "pos f"]
    show "attendee_name_parts (positions s' (pos_key (pos f))) = (if truthy w then w else PNone)"
      by simp
  }
qed

lemma example_forms_ok: "forms_ok example_forms"
  by (simp add: forms_ok_def form_ok_def example_forms_def example_position_def entry_ok_def
      meta_info_data_def serializable_meta_def startswith_def value_fits_def
      is_ModelMultipleChoiceField_def is_ModelChoiceField_def)

section \<open>The claims\<close>

text \<open>
  C1, as the spec states it, exempts an event from the block when it is not live or when
  its end timestamps are more than 60 days in the past. The event that is not live and
  ended 52 days ago is exempt by that sentence and is blocked.
\<close>

theorem shred_constraints_not_live_counterexample:
  "\<not> ((\<not> live event_52_days \<or>
        list_all (over_for_60_days (days 1000)) (relevant_ends event_52_days)) \<longrightarrow>
       shred_constraints (days 1000) event_52_days = None)"
  by (simp add: shred_constraints_def event_52_days_def relevant_ends_def event_end_def
      over_for_60_days_def days_def)

text \<open>
  C1, amended. \<^verbatim>\<open>shred_constraints\<close> returns a blocking value unless the event is not
  live and its relevant end timestamps (the end of the event, or those of every
  sub-period for an event with sub-periods) are more than 60 days in the past. In
  particular a live event is blocked, an event that is not live and has no sub-periods
  is not blocked when its \<^verbatim>\<open>date_to\<close> is 62 days in the past and is blocked when it is 52
  days in the past, and an event with sub-periods is blocked as soon as one sub-period
  is inside the window, whatever the others are.
\<close>

theorem shred_constraints_blocks:
  "(shred_constraints now e = None \<longleftrightarrow>
      \<not> live e \<and> list_all (over_for_60_days now) (relevant_ends e)) \<and>
   (live e \<longrightarrow> shred_constraints now e \<noteq> None) \<and>
   (\<not> live e \<and> \<not> has_subevents e \<and> date_to e = Some (now - days 62) \<longrightarrow>
      shred_constraints now e = None) \<and>
   (\<not> has_subevents e \<and> date_to e = Some (now - days 52) \<longrightarrow> shred_constraints now e \<noteq> None) \<and>
   (has_subevents e \<and> (\<exists>se \<in> set (subevents e). \<not> over_for_60_days now (subevent_end se)) \<longrightarrow>
      shred_constraints now e \<noteq> None)"
  by (auto simp: shred_constraints_def relevant_ends_def event_end_def over_for_60_days_def
      days_def list_all_iff)

theorem shred_constraints_blocks_witness:
  "shred_constraints (days 1000) example_event \<noteq> None \<and>
   shred_constraints (days 1000) (example_event\<lparr>subevents := [hd (subevents example_event)]\<rparr>) = None \<and>
   shred_constraints (days 1000) (example_event\<lparr>live := True\<rparr>) \<noteq> None \<and>
   shred_constraints (days 1000) (example_event\<lparr>has_subevents := False, date_to := Some (days 1000 - days 62)\<rparr>) = None \<and>
   shred_constraints (days 1000) (example_event\<lparr>has_subevents := False, date_to := Some (days 1000 - days 52)\<rparr>) \<noteq> None"
proof -
  have in_window: "\<exists>se \<in> set (subevents example_event). \<not> over_for_60_days (days 1000) (subevent_end se)"
    by (simp add: example_event_def over_for_60_days_def subevent_end_def days_def)
  have sub: "has_subevents example_event" and off: "\<not> live example_event"
    by (simp_all add: example_event_def)
  have old: "list_all (over_for_60_days (days 1000))
      (relevant_ends (example_event\<lparr>subevents := [hd (subevents example_event)]\<rparr>))"
    by (simp add: example_event_def relevant_ends_def over_for_60_days_def subevent_end_def days_def)
  have 1: "shred_constraints (days 1000) example_event \<noteq> None"
    using shred_constraints_blocks[of "days 1000" example_event] in_window sub by blast
  have 2: "shred_constraints (days 1000) (example_event\<lparr>live := True\<rparr>) \<noteq> None"
  proof -
    have "live (example_event\<lparr>live := True\<rparr>)" by simp
    with shred_constraints_blocks[of "days 1000" "example_event\<lparr>live := True\<rparr>"]
    show ?thesis by blast
  qed
  define e62 where "e62 = example_event\<lparr>has_subevents := False, date_to := Some (days 1000 - days 62)\<rparr>"
  define e52 where "e52 = example_event\<lparr>has_subevents := False, date_to := Some (days 1000 - days 52)\<rparr>"
  define e1 where "e1 = example_event\<lparr>subevents := [hd (subevents example_event)]\<rparr>"
  have 3: "shred_constraints (days 1000) e62 = None"
  proof -
    have "\<not> live e62" "\<not> has_subevents e62" "date_to e62 = Some (days 1000 - days 62)"
      by (simp_all add: e62_def example_event_def)
    with shred_constraints_blocks[of "days 1000" e62] show ?thesis by blast
  qed
  have 4: "shred_constraints (days 1000) e52 \<noteq> None"
  proof -
    have "\<not> has_subevents e52" "date_to e52 = Some (days 1000 - days 52)"
      by (simp_all add: e52_def)
    with shred_constraints_blocks[of "days 1000" e52] show ?thesis by blast
  qed
  have 5: "shred_constraints (days 1000) e1 = None"
  proof -
    have "\<not> live e1" by (simp add: e1_def example_event_def)
    with old shred_constraints_blocks[of "days 1000" e1] show ?thesis
      unfolding e1_def by blast
  qed
  note 3 = 3[unfolded e62_def] and 4 = 4[unfolded e52_def] and 5 = 5[unfolded e1_def]
  from 1 2 3 4 5 show ?thesis by simp
qed

text \<open>
  C9. In \<^verbatim>\<open>save\<close>, for every valid form, a cleaned \<^verbatim>\<open>attendee_email\<close> that is the empty
  string is persisted as \<^verbatim>\<open>None\<close> and a falsy \<^verbatim>\<open>attendee_name_parts\<close> is persisted as
  \<^verbatim>\<open>None\<close>: neither field of the row is the empty string once its key was in the cleaned
  data. The forms are those of distinct positions and the cleaned data is a dictionary
  (its keys are distinct); \<^verbatim>\<open>save\<close> returns on forms that are in order.
\<close>

theorem save_persists_empty_attendee_fields_as_None:
  "(forms_ok fs \<longrightarrow> (\<exists>ok s'. save fs s = Inr (ok, s'))) \<and>
   (\<forall>ok s' f. save fs s = Inr (ok, s') \<and> distinct (map (pos_key \<circ> pos) fs) \<and> f \<in> set fs \<and>
        is_valid f \<and> distinct (map fst (cleaned_data f)) \<longrightarrow>
      ((''attendee_email'', PStr []) \<in> set (cleaned_data f) \<longrightarrow>
         attendee_email (positions s' (pos_key (pos f))) = PNone) \<and>
      (\<forall>v. (''attendee_name_parts'', v) \<in> set (cleaned_data f) \<and> \<not> truthy v \<longrightarrow>
         attendee_name_parts (positions s' (pos_key (pos f))) = PNone) \<and>
      (''attendee_email'' \<in> fst ` set (cleaned_data f) \<longrightarrow>
         attendee_email (positions s' (pos_key (pos f))) \<noteq> PStr []) \<and>
      (''attendee_name_parts'' \<in> fst ` set (cleaned_data f) \<longrightarrow>
         attendee_name_parts (positions s' (pos_key (pos f))) \<noteq> PStr []))"
proof (rule conjI)
  show "forms_ok fs \<longrightarrow> (\<exists>ok s'. save fs s = Inr (ok, s'))"
  proof
    assume "forms_ok fs"
    then have "list_all form_ok fs" by (simp add: forms_ok_def)
    from save_loop_returns[OF this, of False s] show "\<exists>ok s'. save fs s = Inr (ok, s')"
      by (auto simp: save_def)
  qed
next
  show "\<forall>ok s' f. save fs s = Inr (ok, s') \<and> distinct (map (pos_key \<circ> pos) fs) \<and> f \<in> set fs \<and>
        is_valid f \<and> distinct (map fst (cleaned_data f)) \<longrightarrow>
      ((''attendee_email'', PStr []) \<in> set (cleaned_data f) \<longrightarrow>
         attendee_email (positions s' (pos_key (pos f))) = PNone) \<and>
      (\<forall>v. (''attendee_name_parts'', v) \<in> set (cleaned_data f) \<and> \<not> truthy v \<longrightarrow>
         attendee_name_parts (positions s' (pos_key (pos f))) = PNone) \<and>
      (''attendee_email'' \<in> fst ` set (cleaned_data f) \<longrightarrow>
         attendee_email (positions s' (pos_key (pos f))) \<noteq> PStr []) \<and>
      (''attendee_name_parts'' \<in> fst ` set (cleaned_data f) \<longrightarrow>
         attendee_name_parts (positions s' (pos_key (pos f))) \<noteq> PStr [])"
  proof (intro allI impI)
    fix ok s' f
    assume a: "save fs s = Inr (ok, s') \<and> distinct (map (pos_key \<circ> pos) fs) \<and> f \<in> set fs \<and>
        is_valid f \<and> distinct (map fst (cleaned_data f))"
    then have h: "save fs s = Inr (ok, s')" "distinct (map (pos_key \<circ> pos) fs)" "f \<in> set fs"
      "is_valid f" "distinct (map fst (cleaned_data f))" by simp_all
    note e = save_attendee_fields(1)[OF h] and n = save_attendee_fields(2)[OF h]
    have 1: "(''attendee_email'', PStr []) \<in> set (cleaned_data f) \<longrightarrow>
         attendee_email (positions s' (pos_key (pos f))) = PNone"
      using e[of "PStr []"] by simp
    have 2: "\<forall>v. (''attendee_name_parts'', v) \<in> set (cleaned_data f) \<and> \<not> truthy v \<longrightarrow>
         attendee_name_parts (positions s' (pos_key (pos f))) = PNone"
    proof (intro allI impI)
      fix v assume "(''attendee_name_parts'', v) \<in> set (cleaned_data f) \<and> \<not> truthy v"
      then have "(''attendee_name_parts'', v) \<in> set (cleaned_data f)" "\<not> truthy v" by simp_all
      with n[of v] show "attendee_name_parts (positions s' (pos_key (pos f))) = PNone" by simp
    qed
    have 3: "''attendee_email'' \<in> fst ` set (cleaned_data f) \<longrightarrow>
         attendee_email (positions s' (pos_key (pos f))) \<noteq> PStr []"
    proof
      assume "''attendee_email'' \<in> fst ` set (cleaned_data f)"
      then obtain w where "(''attendee_email'', w) \<in> set (cleaned_data f)" by force
      from e[OF this] show "attendee_email (positions s' (pos_key (pos f))) \<noteq> PStr []"
        by (simp split: if_splits)
    qed
    have 4: "''attendee_name_parts'' \<in> fst ` set (cleaned_data f) \<longrightarrow>
         attendee_name_parts (positions s' (pos_key (pos f))) \<noteq> PStr []"
    proof
      assume "''attendee_name_parts'' \<in> fst ` set (cleaned_data f)"
      then obtain w where "(''attendee_name_parts'', w) \<in> set (cleaned_data f)" by force
      from n[OF this] show "attendee_name_parts (positions s' (pos_key (pos f))) \<noteq> PStr []"
        by (auto split: if_splits)
    qed
    from 1 2 3 4 show "((''attendee_email'', PStr []) \<in> set (cleaned_data f) \<longrightarrow>
         attendee_email (positions s' (pos_key (pos f))) = PNone) \<and>
      (\<forall>v. (''attendee_name_parts'', v) \<in> set (cleaned_data f) \<and> \<not> truthy v \<longrightarrow>
         attendee_name_parts (positions s' (pos_key (pos f))) = PNone) \<and>
      (''attendee_email'' \<in> fst ` set (cleaned_data f) \<longrightarrow>
         attendee_email (positions s' (pos_key (pos f))) \<noteq> PStr []) \<and>
      (''attendee_name_parts'' \<in> fst ` set (cleaned_data f) \<longrightarrow>
         attendee_name_parts (positions s' (pos_key (pos f))) \<noteq> PStr [])"
      by blast
  qed
qed

theorem save_persists_empty_attendee_fields_as_None_witness:
  "\<exists>ok s'. save example_forms example_db = Inr (ok, s') \<and>
        attendee_email (positions s' (True, 1)) = PNone \<and>
        attendee_name_parts (positions s' (True, 1)) = PNone"
proof -
  note t = save_persists_empty_attendee_fields_as_None[of example_forms example_db]
  have "forms_ok example_forms"
    by (simp add: forms_ok_def form_ok_def example_forms_def example_position_def entry_ok_def
      meta_info_data_def serializable_meta_def startswith_def value_fits_def
      is_ModelMultipleChoiceField_def is_ModelChoiceField_def)
  with t obtain ok s' where r: "save example_forms example_db = Inr (ok, s')"
    by blast
  have d: "distinct (map (pos_key \<circ> pos) example_forms)"
    by (simp add: example_forms_def example_position_def pos_key_def)
  define f where "f = hd example_forms"
  have f: "f \<in> set example_forms" "is_valid f" "distinct (map fst (cleaned_data f))"
    "(''attendee_email'', PStr []) \<in> set (cleaned_data f)"
    "(''attendee_name_parts'', PDict []) \<in> set (cleaned_data f)" "\<not> truthy (PDict [])"
    "pos_key (pos f) = (True, 1)"
    by (simp_all add: f_def example_forms_def example_position_def pos_key_def)
  from t r d f have "attendee_email (positions s' (pos_key (pos f))) = PNone"
    and "attendee_name_parts (positions s' (pos_key (pos f))) = PNone"
    by blast+
  with r f(7) show ?thesis by auto
qed

text \<open>
  C10. \<^verbatim>\<open>save\<close> returns \<^verbatim>\<open>True\<close> exactly when every form is valid. An invalid form does
  not end the loop: the answers, their options and the stored files are those that
  \<^verbatim>\<open>save\<close> leaves on the valid forms alone, and the row of every form's position, valid
  or not, holds the serialized meta information of the form (the forms being those of
  distinct positions). \<^verbatim>\<open>save\<close> returns on forms that are in order.
\<close>

theorem save_returns_whether_all_forms_valid:
  "(forms_ok fs \<longrightarrow> (\<exists>ok s'. save fs s = Inr (ok, s'))) \<and>
   (\<forall>ok s'. save fs s = Inr (ok, s') \<longrightarrow>
      ok = list_all is_valid fs \<and>
      (\<exists>ok2 s2. save (filter is_valid fs) s = Inr (ok2, s2) \<and> answers s2 = answers s') \<and>
      (distinct (map (pos_key \<circ> pos) fs) \<longrightarrow>
         (\<forall>f \<in> set fs. meta_info (positions s' (pos_key (pos f))) = form_meta f)))"
proof (intro conjI impI allI)
  assume "forms_ok fs"
  then have "list_all form_ok fs" by (simp add: forms_ok_def)
  from save_loop_returns[OF this, of False s] show "\<exists>ok s'. save fs s = Inr (ok, s')"
    by (auto simp: save_def)
next
  fix ok s' assume "save fs s = Inr (ok, s')"
  then have r: "save_loop False fs s = Inr (ok, s')" by (simp add: save_def)
  from save_loop_flag[OF r] show "ok = list_all is_valid fs" by simp
  from save_loop_filter_answers[OF r refl, of False]
  show "\<exists>ok2 s2. save (filter is_valid fs) s = Inr (ok2, s2) \<and> answers s2 = answers s'"
    by (simp add: save_def)
  assume d: "distinct (map (pos_key \<circ> pos) fs)"
  show "\<forall>f \<in> set fs. meta_info (positions s' (pos_key (pos f))) = form_meta f"
    using save_loop_meta_rows[OF r d] by blast
qed

theorem save_returns_whether_all_forms_valid_witness:
  "\<exists>s'. save example_forms example_db = Inr (False, s') \<and>
        (\<exists>ok2 s2. save (filter is_valid example_forms) example_db = Inr (ok2, s2) \<and>
                   answers s2 = answers s') \<and>
        meta_info (positions s' (True, 1)) =
          \<lparr>question_form_data = Some [(''newsletter'', PBool True)], other_entries = []\<rparr> \<and>
        meta_info (positions s' (True, 2)) = \<lparr>question_form_data = None, other_entries = []\<rparr>"
proof -
  note t = save_returns_whether_all_forms_valid[of example_forms example_db]
  from t example_forms_ok obtain ok s' where r: "save example_forms example_db = Inr (ok, s')"
    by blast
  have d: "distinct (map (pos_key \<circ> pos) example_forms)"
    by (simp add: example_forms_def example_position_def pos_key_def)
  from t r d have 1: "ok = list_all is_valid example_forms"
    and 2: "\<exists>ok2 s2. save (filter is_valid example_forms) example_db = Inr (ok2, s2) \<and>
                   answers s2 = answers s'"
    and 3: "\<forall>f \<in> set example_forms. meta_info (positions s' (pos_key (pos f))) = form_meta f"
    by blast+
  from 1 have "ok = False" by (simp add: example_forms_def)
  moreover from 3 have "meta_info (positions s' (True, 1)) =
          \<lparr>question_form_data = Some [(''newsletter'', PBool True)], other_entries = []\<rparr>"
    and "meta_info (positions s' (True, 2)) = \<lparr>question_form_data = None, other_entries = []\<rparr>"
    by (simp_all add: example_forms_def example_position_def pos_key_def form_meta_def
        meta_info_data_def startswith_def meta_entry_def setdefault_question_form_data_def)
  ultimately show ?thesis using r 2 by blast
qed

end
